theory Spec2Isabelle
  imports Main "HOL-Library.Word"
begin

section \<open>The IPv4-forcing resolver shim (force\_ipv4.c)\<close>

text \<open>
  The shim exports its own \<^verbatim>\<open>getaddrinfo\<close>. It first looks the requested host up in the
  environment variable \<^verbatim>\<open>CURSOR_DNS_OVERRIDES\<close> (\<^verbatim>\<open>lookup_override\<close>) and then calls the
  next \<^verbatim>\<open>getaddrinfo\<close> of the process, either on the numeric override address or on the
  original host, always with the address family set to \<^verbatim>\<open>AF_INET\<close>.

  C strings are modelled as \<^typ>\<open>string\<close>: the bytes before the terminating NUL. A pointer
  that may be \<^verbatim>\<open>NULL\<close> and is dereferenced by the shim is an \<^typ>\<open>'a option\<close>.
\<close>

subsection \<open>Data\<close>

text \<open>\<^verbatim>\<open>struct in_addr\<close>: the four address bytes in network order.\<close>

type_synonym in_addr = "8 word \<times> 8 word \<times> 8 word \<times> 8 word"

text \<open>
  \<^verbatim>\<open>struct addrinfo\<close> of \<^verbatim>\<open><netdb.h>\<close>. The three pointer fields are only ever copied
  by the shim, never followed, so they are kept as addresses, with 0 for \<^verbatim>\<open>NULL\<close>.
\<close>

record addrinfo =
  ai_flags :: "32 word"
  ai_family :: "32 word"
  ai_socktype :: "32 word"
  ai_protocol :: "32 word"
  ai_addrlen :: "32 word"
  ai_addr :: nat
  ai_canonname :: nat
  ai_next :: nat

text \<open>The initialiser \<^verbatim>\<open>(struct addrinfo){0}\<close>.\<close>

definition addrinfo_zero :: addrinfo where
  "addrinfo_zero =
     \<lparr>ai_flags = 0, ai_family = 0, ai_socktype = 0, ai_protocol = 0,
      ai_addrlen = 0, ai_addr = 0, ai_canonname = 0, ai_next = 0\<rparr>"

text \<open>
  The constants come from the system headers, which are not part of the repository; the
  values are those of Linux with glibc, where the shim is built.
\<close>

definition AF_UNSPEC :: "32 word" where "AF_UNSPEC = 0"
definition AF_INET :: "32 word" where "AF_INET = 2"
definition AF_INET6 :: "32 word" where "AF_INET6 = 10"
definition SOCK_STREAM :: "32 word" where "SOCK_STREAM = 1"
definition SOCK_DGRAM :: "32 word" where "SOCK_DGRAM = 2"
definition AI_PASSIVE :: "32 word" where "AI_PASSIVE = 1"
definition AI_CANONNAME :: "32 word" where "AI_CANONNAME = 2"
definition AI_NUMERICHOST :: "32 word" where "AI_NUMERICHOST = 4"

subsection \<open>The C library functions the shim calls\<close>

text \<open>\<^verbatim>\<open>getenv\<close>: the process environment maps a variable name to its value.\<close>

definition getenv :: "(string \<rightharpoonup> string) \<Rightarrow> string \<Rightarrow> string option" where
  "getenv environ name = environ name"

text \<open>
  \<^verbatim>\<open>strdup\<close> returns a copy of its argument, or \<^verbatim>\<open>NULL\<close> when the allocation fails. Whether
  the heap can serve the request is the first argument.
\<close>

definition strdup :: "bool \<Rightarrow> string \<Rightarrow> string option" where
  "strdup mem s = (if mem then Some s else None)"

definition strspn :: "string \<Rightarrow> string \<Rightarrow> nat" where
  "strspn s accept = length (takeWhile (\<lambda>c. c \<in> set accept) s)"

definition strcspn :: "string \<Rightarrow> string \<Rightarrow> nat" where
  "strcspn s reject = length (takeWhile (\<lambda>c. c \<notin> set reject) s)"

text \<open>
  \<^verbatim>\<open>strtok_r\<close> on the text that is still to be read (the buffer on the first call, the save
  pointer afterwards): leading delimiters are skipped; if nothing is left the result is
  \<^verbatim>\<open>NULL\<close>; otherwise the token runs up to the next delimiter, which is overwritten by NUL,
  and the save pointer is set behind it (or onto the final NUL). The result is the token
  together with the text the save pointer then points to.
\<close>

definition strtok_r :: "string \<Rightarrow> string \<Rightarrow> (string \<times> string) option" where
  "strtok_r s delim =
     (let s1 = drop (strspn s delim) s in
      if s1 = [] then None
      else let n = strcspn s1 delim in Some (take n s1, drop (Suc n) s1))"

text \<open>\<^verbatim>\<open>strchr\<close>: the offset of the first occurrence of a byte, \<^verbatim>\<open>NULL\<close> if there is none.\<close>

fun strchr :: "string \<Rightarrow> char \<Rightarrow> nat option" where
  "strchr [] c = None"
| "strchr (x # xs) c = (if x = c then Some 0 else map_option Suc (strchr xs c))"

text \<open>
  \<^verbatim>\<open>inet_pton(AF_INET, ip, addr) == 1\<close> is a function of the C library, not of the
  repository: \<^verbatim>\<open>lookup_override\<close> below takes it as the parameter \<open>pton\<close>, with \<open>None\<close> for
  every return value other than 1. For runs on concrete configurations, \<open>inet_pton\<close> is the
  dotted-decimal rule of glibc: four decimal fields between 0 and 255, separated by single
  dots, no leading zero in a field of several digits, nothing before or after.
  The state of its loop is whether the current field has a digit (\<open>saw_digit\<close>), the
  completed bytes (\<open>done\<close>) and the byte being read (\<open>cur\<close>).
\<close>

definition isdigit :: "char \<Rightarrow> bool" where
  "isdigit ch = (48 \<le> (of_char ch :: nat) \<and> (of_char ch :: nat) \<le> 57)"

fun inet_pton4 :: "string \<Rightarrow> bool \<Rightarrow> 8 word list \<Rightarrow> 8 word \<Rightarrow> in_addr option" where
  "inet_pton4 [] saw_digit done cur =
     (if length done + (if saw_digit then 1 else 0) < 4 then None
      else case done of [a, b, c] \<Rightarrow> Some (a, b, c, cur) | _ \<Rightarrow> None)"
| "inet_pton4 (ch # src) saw_digit done cur =
     (if isdigit ch then
        (let new = unat cur * 10 + (of_char ch - 48) in
         if saw_digit \<and> cur = 0 then None
         else if new > 255 then None
         else if \<not> saw_digit \<and> length done + 1 > 4 then None
         else inet_pton4 src True done (of_nat new))
      else if ch = CHR ''.'' \<and> saw_digit then
        (if length done + 1 = 4 then None
         else inet_pton4 src False (done @ [cur]) 0)
      else None)"

definition inet_pton :: "string \<Rightarrow> in_addr option" where
  "inet_pton src = inet_pton4 src False [] 0"

text \<open>
  \<^verbatim>\<open>inet_ntop(AF_INET, &addr, ip_str, INET_ADDRSTRLEN)\<close> prints the four bytes in decimal
  with dots between them. The longest output has 15 bytes, so the buffer of
  \<^verbatim>\<open>INET_ADDRSTRLEN = 16\<close> bytes always suffices and the call cannot fail.
\<close>

definition digit_char :: "nat \<Rightarrow> char" where
  "digit_char d = char_of (48 + d)"

definition decimal_u8 :: "8 word \<Rightarrow> string" where
  "decimal_u8 w =
     (let n = unat w in
      if n \<ge> 100 then [digit_char (n div 100), digit_char (n div 10 mod 10), digit_char (n mod 10)]
      else if n \<ge> 10 then [digit_char (n div 10), digit_char (n mod 10)]
      else [digit_char n])"

fun inet_ntop :: "in_addr \<Rightarrow> string" where
  "inet_ntop (a, b, c, d) =
     decimal_u8 a @ ''.'' @ decimal_u8 b @ ''.'' @ decimal_u8 c @ ''.'' @ decimal_u8 d"

subsection \<open>\<^verbatim>\<open>lookup_override\<close>\<close>

lemma strtok_r_shorter:
  assumes "strtok_r s delim = Some (tok, rest)"
  shows "length rest < length s"
proof (cases "drop (strspn s delim) s = []")
  case True
  then have "strtok_r s delim = None" by (simp add: strtok_r_def)
  with assms show ?thesis by simp
next
  case False
  then have "rest = drop (Suc (strcspn (drop (strspn s delim) s) delim)) (drop (strspn s delim) s)"
    using assms by (simp add: strtok_r_def Let_def)
  then have "length rest = length s - strspn s delim - Suc (strcspn (drop (strspn s delim) s) delim)"
    by simp
  moreover have "strspn s delim < length s" using False by simp
  ultimately show ?thesis by linarith
qed

text \<open>
  The \<^verbatim>\<open>for\<close> loop over the tokens of the working copy. \<open>buf\<close> is the text \<^verbatim>\<open>strtok_r\<close> has
  still to read. A token without \<^verbatim>\<open>=\<close> is skipped (\<^verbatim>\<open>continue\<close>); otherwise the token is cut
  at its first \<^verbatim>\<open>=\<close> into \<open>host\<close> and \<open>ip\<close>. Both \<^verbatim>\<open>break\<close>s leave the loop with
  \<^verbatim>\<open>found = (inet_pton(AF_INET, ip, addr) == 1)\<close>, which is the result \<open>pton ip\<close>: \<open>Some a\<close>
  stands for the return value 1 with \<^verbatim>\<open>*addr = a\<close>, \<open>None\<close> for the return value 0.
\<close>

function scan_entries :: "(string \<Rightarrow> in_addr option) \<Rightarrow> string \<Rightarrow> string \<Rightarrow> in_addr option" where
  "scan_entries pton node buf =
     (case strtok_r buf '','' of
        None \<Rightarrow> None
      | Some (tok, rest) \<Rightarrow>
          (case strchr tok (CHR ''='') of
             None \<Rightarrow> scan_entries pton node rest
           | Some eq \<Rightarrow>
               (let host = take eq tok; ip = drop (Suc eq) tok in
                if host = node then pton ip
                else if take 2 host = ''*.'' then
                  (let suffix = drop 1 host; slen = length suffix; nlen = length node in
                   if nlen \<ge> slen \<and> drop (nlen - slen) node = suffix then pton ip
                   else scan_entries pton node rest)
                else scan_entries pton node rest)))"
  by pat_completeness auto
termination
proof (relation "measure (\<lambda>(pton, node, buf). length buf)")
  show "wf (measure (\<lambda>(pton, node, buf). length buf))" by simp
qed (auto intro: strtok_r_shorter)

declare scan_entries.simps [simp del]

definition lookup_override ::
  "(string \<Rightarrow> in_addr option) \<Rightarrow> bool \<Rightarrow> (string \<rightharpoonup> string) \<Rightarrow> string option \<Rightarrow> in_addr option" where
  "lookup_override pton mem environ node =
     (case getenv environ ''CURSOR_DNS_OVERRIDES'' of
        None \<Rightarrow> None
      | Some env \<Rightarrow>
          (case node of
             None \<Rightarrow> None
           | Some n \<Rightarrow>
               (case strdup mem env of
                  None \<Rightarrow> None
                | Some buf \<Rightarrow> scan_entries pton n buf)))"

text \<open>
  The values the loop variable \<open>tok\<close> takes when the loop runs to its end: the non-empty
  pieces of the buffer between commas, in order.
\<close>

function tokens :: "string \<Rightarrow> string list" where
  "tokens buf =
     (case strtok_r buf '','' of
        None \<Rightarrow> []
      | Some (tok, rest) \<Rightarrow> tok # tokens rest)"
  by pat_completeness auto
termination
proof (relation "measure length")
  show "wf (measure length)" by simp
qed (auto intro: strtok_r_shorter)

declare tokens.simps [simp del]

text \<open>
  The two tests of the loop body on the part of a token before its first \<^verbatim>\<open>=\<close>: equality
  with the host name, or a pattern starting with \<^verbatim>\<open>*.\<close> whose text from the dot on is a
  suffix of the host name.
\<close>

definition pattern_matches :: "string \<Rightarrow> string \<Rightarrow> bool" where
  "pattern_matches host node =
     (host = node \<or>
      (take 2 host = ''*.'' \<and> length (drop 1 host) \<le> length node \<and>
       drop (length node - length (drop 1 host)) node = drop 1 host))"

text \<open>Whether the loop leaves at a token: it has a \<^verbatim>\<open>=\<close> and its pattern passes a test.\<close>

definition entry_matches :: "string \<Rightarrow> string \<Rightarrow> bool" where
  "entry_matches tok node =
     (case strchr tok (CHR ''='') of
        None \<Rightarrow> False
      | Some eq \<Rightarrow> pattern_matches (take eq tok) node)"

text \<open>The loop as a search through the list of tokens, to be compared with \<open>scan_entries\<close>.\<close>

fun first_match :: "(string \<Rightarrow> in_addr option) \<Rightarrow> string \<Rightarrow> string list \<Rightarrow> in_addr option" where
  "first_match pton node [] = None"
| "first_match pton node (tok # toks) =
     (case strchr tok (CHR ''='') of
        None \<Rightarrow> first_match pton node toks
      | Some eq \<Rightarrow>
          if pattern_matches (take eq tok) node then pton (drop (Suc eq) tok)
          else first_match pton node toks)"

subsection \<open>\<^verbatim>\<open>getaddrinfo\<close>\<close>

text \<open>
  The next \<^verbatim>\<open>getaddrinfo\<close> of the process is outside the repository. It is a function of
  the host, the service and the hints; its value \<open>'r\<close> stands for everything it hands back,
  the status code and the list stored through \<^verbatim>\<open>res\<close>.
\<close>

type_synonym 'r resolver = "string option \<Rightarrow> string option \<Rightarrow> addrinfo option \<Rightarrow> 'r"

text \<open>The shim has no check of what \<^verbatim>\<open>dlsym\<close> returned: a call through \<^verbatim>\<open>NULL\<close> is a fault.\<close>

datatype fault = NullCall

definition call_real ::
  "'r resolver option \<Rightarrow> string option \<Rightarrow> string option \<Rightarrow> addrinfo option \<Rightarrow> fault + 'r" where
  "call_real f node service hints =
     (case f of None \<Rightarrow> Inl NullCall | Some real \<Rightarrow> Inr (real node service hints))"

text \<open>
  \<open>dlsym_next\<close> is what \<^verbatim>\<open>dlsym(RTLD_NEXT, "getaddrinfo")\<close> returns, \<open>real_getaddrinfo\<close> the
  static variable of that name on entry. The result is the static variable on exit and the
  value returned to the caller.
\<close>

definition getaddrinfo ::
  "(string \<Rightarrow> in_addr option) \<Rightarrow> bool \<Rightarrow> (string \<rightharpoonup> string) \<Rightarrow> 'r resolver option \<Rightarrow>
   'r resolver option \<Rightarrow> string option \<Rightarrow> string option \<Rightarrow> addrinfo option \<Rightarrow>
   'r resolver option \<times> (fault + 'r)" where
  "getaddrinfo pton mem environ dlsym_next real_getaddrinfo node service hints =
     (let real_getaddrinfo' =
            (case real_getaddrinfo of None \<Rightarrow> dlsym_next | Some f \<Rightarrow> Some f) in
      case (case node of None \<Rightarrow> None | Some n \<Rightarrow> lookup_override pton mem environ node) of
        Some override_addr \<Rightarrow>
          (let override_hints = addrinfo_zero
                 \<lparr>ai_family := AF_INET,
                  ai_socktype := (case hints of Some h \<Rightarrow> ai_socktype h | None \<Rightarrow> SOCK_STREAM),
                  ai_protocol := (case hints of Some h \<Rightarrow> ai_protocol h | None \<Rightarrow> 0)\<rparr>;
               ip_str = inet_ntop override_addr;
               override_hints = override_hints\<lparr>ai_flags := AI_NUMERICHOST\<rparr>
           in (real_getaddrinfo',
               call_real real_getaddrinfo' (Some ip_str) service (Some override_hints)))
      | None \<Rightarrow>
          (let modified_hints = (case hints of Some h \<Rightarrow> h | None \<Rightarrow> addrinfo_zero);
               modified_hints = modified_hints\<lparr>ai_family := AF_INET\<rparr>
           in (real_getaddrinfo',
               call_real real_getaddrinfo' node service (Some modified_hints))))"

section \<open>Properties\<close>

subsection \<open>The tokens of a configuration\<close>


lemma strchr_first: "c \<notin> set a \<Longrightarrow> strchr (a @ c # b) c = Some (length a)"
  by (induction a) auto

lemma strtok_r_comma_Nil: "strtok_r [] '','' = None"
  by (simp add: strtok_r_def strspn_def)

lemma strtok_r_comma_skip: "strtok_r (CHR '','' # s) '','' = strtok_r s '',''"
  by (simp add: strtok_r_def strspn_def)

lemma strtok_r_comma_token:
  assumes "c \<noteq> CHR '',''"
  shows "strtok_r (c # s) '','' =
         Some (c # takeWhile (\<lambda>x. x \<noteq> CHR '','') s, drop 1 (dropWhile (\<lambda>x. x \<noteq> CHR '','') s))"
proof -
  let ?n = "length (takeWhile (\<lambda>x. x \<noteq> CHR '','') s)"
  have "drop (Suc ?n) s = drop 1 (drop ?n s)" by simp
  then have d: "drop (Suc ?n) s = drop 1 (dropWhile (\<lambda>x. x \<noteq> CHR '','') s)"
    by (simp only: dropWhile_eq_drop)
  have t: "take ?n s = takeWhile (\<lambda>x. x \<noteq> CHR '','') s"
    by (rule takeWhile_eq_take [symmetric])
  have "strspn (c # s) '','' = 0" using assms by (simp add: strspn_def)
  moreover have "strcspn (c # s) '','' = Suc ?n" using assms by (simp add: strcspn_def)
  ultimately show ?thesis
    using d t by (simp add: strtok_r_def Let_def)
qed

lemma tokens_Nil: "tokens [] = []"
  by (simp add: tokens.simps [of "[]"] strtok_r_comma_Nil)

lemma tokens_comma: "tokens (CHR '','' # s) = tokens s"
  by (simp add: tokens.simps [of "CHR '','' # s"] tokens.simps [of s] strtok_r_comma_skip)

lemma tokens_token:
  "c \<noteq> CHR '','' \<Longrightarrow>
   tokens (c # s) = (c # takeWhile (\<lambda>x. x \<noteq> CHR '','') s) #
                    tokens (drop 1 (dropWhile (\<lambda>x. x \<noteq> CHR '','') s))"
  by (simp add: tokens.simps [of "c # s"] strtok_r_comma_token)



lemma tokens_no_comma: "t \<in> set (tokens s) \<Longrightarrow> CHR '','' \<notin> set t \<and> t \<noteq> []"
proof (induction s arbitrary: t rule: length_induct)
  case (1 s)
  show ?case
  proof (cases s)
    case Nil
    with "1.prems" show ?thesis by (simp add: tokens_Nil)
  next
    case (Cons c r)
    show ?thesis
    proof (cases "c = CHR '',''")
      case True
      with "1.prems" Cons have "t \<in> set (tokens r)" by (simp add: tokens_comma)
      moreover have "length r < length s" using Cons by simp
      ultimately show ?thesis using "1.IH" by blast
    next
      case False
      let ?r = "drop 1 (dropWhile (\<lambda>x. x \<noteq> CHR '','') r)"
      have tw: "CHR '','' \<notin> set (takeWhile (\<lambda>x. x \<noteq> CHR '','') r)"
        using set_takeWhileD by fastforce
      have len: "length ?r < length s"
        using Cons length_dropWhile_le [of "\<lambda>x. x \<noteq> CHR '',''" r] by simp
      have "t = c # takeWhile (\<lambda>x. x \<noteq> CHR '','') r \<or> t \<in> set (tokens ?r)"
        using "1.prems" Cons False by (simp add: tokens_token)
      then show ?thesis
      proof
        assume "t = c # takeWhile (\<lambda>x. x \<noteq> CHR '','') r"
        then show ?thesis using tw False by auto
      next
        assume "t \<in> set (tokens ?r)"
        then show ?thesis using "1.IH" len by blast
      qed
    qed
  qed
qed


subsection \<open>The loop finds the first matching token\<close>

lemma scan_entries_first_match:
  "scan_entries pton node buf = first_match pton node (tokens buf)"
proof (induction pton node buf rule: scan_entries.induct)
  case (1 pton node buf)
  show ?case
  proof (cases "strtok_r buf '',''")
    case None
    then show ?thesis
      by (simp add: scan_entries.simps [of pton node buf] tokens.simps [of buf])
  next
    case (Some p)
    obtain tok rest where p: "p = (tok, rest)" by (cases p)
    have tk: "tokens buf = tok # tokens rest"
      using Some p by (simp add: tokens.simps [of buf])
    show ?thesis
    proof (cases "strchr tok (CHR ''='')")
      case None
      have "scan_entries pton node buf = scan_entries pton node rest"
        using Some p None by (simp add: scan_entries.simps [of pton node buf])
      also have "\<dots> = first_match pton node (tokens rest)"
        using "1.IH"(1) Some p None by simp
      finally show ?thesis using tk None by simp
    next
      case (Some eq)
      note eq = Some
      show ?thesis
      proof (cases "pattern_matches (take eq tok) node")
        case True
        then have "scan_entries pton node buf = pton (drop (Suc eq) tok)"
          using \<open>strtok_r buf '','' = Some p\<close> p eq
          by (auto simp: scan_entries.simps [of pton node buf] pattern_matches_def Let_def)
        then show ?thesis using tk eq True by simp
      next
        case False
        then have "scan_entries pton node buf = scan_entries pton node rest"
          using \<open>strtok_r buf '','' = Some p\<close> p eq
          by (auto simp: scan_entries.simps [of pton node buf] pattern_matches_def Let_def)
        also have "\<dots> = first_match pton node (tokens rest)"
        proof (cases "take 2 (take eq tok) = ''*.''")
          case True
          show ?thesis
            using "1.IH"(2) [OF \<open>strtok_r buf '','' = Some p\<close> p [symmetric] eq refl refl _ True refl refl refl] False True
            by (simp add: pattern_matches_def)
        next
          case F2: False
          show ?thesis
            using "1.IH"(3) [OF \<open>strtok_r buf '','' = Some p\<close> p [symmetric] eq refl refl _ F2] False
            by (simp add: pattern_matches_def)
        qed
        finally show ?thesis using tk eq False by simp
      qed
    qed
  qed
qed

lemma first_match_Cons:
  "first_match pton node (tok # toks) =
     (if entry_matches tok node
      then pton (drop (Suc (the (strchr tok (CHR ''='')))) tok)
      else first_match pton node toks)"
  by (simp add: entry_matches_def split: option.splits)

lemma first_match_skip:
  "\<forall>t \<in> set before. \<not> entry_matches t node \<Longrightarrow>
   first_match pton node (before @ toks) = first_match pton node toks"
  by (induction before) (simp_all add: first_match_Cons del: first_match.simps)


subsection \<open>The lookup on a configuration\<close>

lemma lookup_override_first_match:
  assumes "getenv environ ''CURSOR_DNS_OVERRIDES'' = Some cfg"
  shows "lookup_override pton True environ (Some node) = first_match pton node (tokens cfg)"
  using assms by (simp add: lookup_override_def strdup_def scan_entries_first_match)

lemma lookup_override_any_mem:
  assumes "getenv environ ''CURSOR_DNS_OVERRIDES'' = Some cfg"
  shows "lookup_override pton mem environ (Some node) =
         (if mem then first_match pton node (tokens cfg) else None)"
  using assms by (simp add: lookup_override_def strdup_def scan_entries_first_match)



lemma lookup_override_no_mem: "lookup_override pton False environ node = None"
  by (simp add: lookup_override_def strdup_def split: option.splits)

lemma entry_matches_exact:
  assumes "CHR ''='' \<notin> set h"
  shows "entry_matches (h @ ''='' @ ip) h"
    and "strchr (h @ ''='' @ ip) (CHR ''='') = Some (length h)"
proof -
  show eq: "strchr (h @ ''='' @ ip) (CHR ''='') = Some (length h)"
    using strchr_first [OF assms, of ip] by simp
  show "entry_matches (h @ ''='' @ ip) h"
    using eq by (simp add: entry_matches_def pattern_matches_def)
qed

subsection \<open>The first matching entry decides\<close>

text \<open>
  Claim C2. First match wins, from left to right: when the tokens of the configuration are
  \<open>before\<close>, then the entry \<open>h=ip\<close> whose pattern is the host name \<open>h\<close> itself, then
  \<open>after\<close>, and no token of \<open>before\<close> matches \<open>h\<close>, the lookup reports what the parser of
  address literals makes of \<open>ip\<close>, whatever \<open>after\<close> holds. (The working copy is allocated.)
\<close>

theorem exact_entry_first_match_wins:
  assumes "getenv environ ''CURSOR_DNS_OVERRIDES'' = Some cfg"
    and "tokens cfg = before @ (h @ ''='' @ ip) # after"
    and "\<forall>t \<in> set before. \<not> entry_matches t h"
    and "CHR ''='' \<notin> set h"
  shows "lookup_override pton True environ (Some h) = pton ip"
proof -
  have "lookup_override pton True environ (Some h)
        = first_match pton h (before @ (h @ ''='' @ ip) # after)"
    using assms(1,2) by (simp add: lookup_override_first_match)
  also have "\<dots> = first_match pton h ((h @ ''='' @ ip) # after)"
    using assms(3) by (rule first_match_skip)
  also have "\<dots> = pton ip"
    using entry_matches_exact [OF assms(4), of ip]
    by (simp add: first_match_Cons del: first_match.simps)
  finally show ?thesis .
qed

text \<open>The configuration \<^verbatim>\<open>a=1.1.1.1,a=2.2.2.2\<close> and the host \<^verbatim>\<open>a\<close>.\<close>

theorem exact_entry_first_match_wins_witness:
  "lookup_override inet_pton True [''CURSOR_DNS_OVERRIDES'' \<mapsto> ''a=1.1.1.1,a=2.2.2.2''] (Some ''a'')
     = Some (1, 1, 1, 1)"
proof -
  have tk: "tokens ''a=1.1.1.1,a=2.2.2.2'' = [] @ (''a'' @ ''='' @ ''1.1.1.1'') # [''a=2.2.2.2'']"
    by code_simp
  have ip: "inet_pton ''1.1.1.1'' = Some (1, 1, 1, 1)"
    by code_simp
  have "lookup_override inet_pton True [''CURSOR_DNS_OVERRIDES'' \<mapsto> ''a=1.1.1.1,a=2.2.2.2''] (Some ''a'')
        = inet_pton ''1.1.1.1''"
    by (rule exact_entry_first_match_wins [OF _ tk]) (simp_all add: getenv_def)
  then show ?thesis using ip by simp
qed

text \<open>
  Claim C3. The scan stops at the first token whose pattern matches, by equality or as a
  wildcard, whether or not its address literal parses: if it does not parse, the lookup
  reports no override, whatever the later tokens \<open>after\<close> are.
\<close>

theorem unparsable_match_stops_scan:
  assumes "getenv environ ''CURSOR_DNS_OVERRIDES'' = Some cfg"
    and "tokens cfg = before @ tok # after"
    and "\<forall>t \<in> set before. \<not> entry_matches t h"
    and "strchr tok (CHR ''='') = Some eq"
    and "pattern_matches (take eq tok) h"
    and "pton (drop (Suc eq) tok) = None"
  shows "lookup_override pton mem environ (Some h) = None"
proof (cases mem)
  case False
  then show ?thesis using assms(1) by (simp add: lookup_override_any_mem)
next
  case True
  have "lookup_override pton mem environ (Some h) = first_match pton h (before @ tok # after)"
    using assms(1,2) True by (simp add: lookup_override_any_mem)
  also have "\<dots> = first_match pton h (tok # after)"
    using assms(3) by (rule first_match_skip)
  also have "\<dots> = None"
    using assms(4,5,6) by simp
  finally show ?thesis .
qed

text \<open>
  The configuration \<^verbatim>\<open>a=not-an-ip,a=3.3.3.3\<close> and the host \<^verbatim>\<open>a\<close>; the second entry alone
  would give 3.3.3.3.
\<close>

theorem unparsable_match_stops_scan_witness:
  "lookup_override inet_pton True [''CURSOR_DNS_OVERRIDES'' \<mapsto> ''a=not-an-ip,a=3.3.3.3''] (Some ''a'') = None
   \<and> lookup_override inet_pton True [''CURSOR_DNS_OVERRIDES'' \<mapsto> ''a=3.3.3.3''] (Some ''a'') = Some (3, 3, 3, 3)"
proof -
  have tk: "tokens ''a=not-an-ip,a=3.3.3.3'' = [] @ ''a=not-an-ip'' # [''a=3.3.3.3'']"
    by code_simp
  have eq: "strchr ''a=not-an-ip'' (CHR ''='') = Some 1"
    by simp
  have pm: "pattern_matches (take 1 ''a=not-an-ip'') ''a''"
    by (simp add: pattern_matches_def)
  have ip: "inet_pton (drop (Suc 1) ''a=not-an-ip'') = None"
    by code_simp
  have 1: "lookup_override inet_pton True [''CURSOR_DNS_OVERRIDES'' \<mapsto> ''a=not-an-ip,a=3.3.3.3''] (Some ''a'') = None"
    using unparsable_match_stops_scan
            [where cfg = "''a=not-an-ip,a=3.3.3.3''" and before = "[]" and tok = "''a=not-an-ip''"
               and after = "[''a=3.3.3.3'']" and eq = 1 and h = "''a''" and pton = inet_pton,
             OF _ tk _ eq pm ip]
    by (simp add: getenv_def)
  have 2: "lookup_override inet_pton True [''CURSOR_DNS_OVERRIDES'' \<mapsto> ''a=3.3.3.3''] (Some ''a'') = Some (3, 3, 3, 3)"
    by code_simp
  show ?thesis using 1 2 by simp
qed

subsection \<open>Wildcard patterns\<close>

lemma wildcard_entry:
  assumes "CHR ''='' \<notin> set s"
  shows "strchr (''*.'' @ s @ ''='' @ ip) (CHR ''='') = Some (length (''*.'' @ s))"
    and "entry_matches (''*.'' @ s @ ''='' @ ip) h \<longleftrightarrow>
         length (''.'' @ s) \<le> length h \<and> drop (length h - length (''.'' @ s)) h = ''.'' @ s"
proof -
  have "CHR ''='' \<notin> set (''*.'' @ s)" using assms by simp
  from strchr_first [OF this, of ip]
  show eq: "strchr (''*.'' @ s @ ''='' @ ip) (CHR ''='') = Some (length (''*.'' @ s))" by simp
  have exact: "length (''.'' @ s) \<le> length h \<and> drop (length h - length (''.'' @ s)) h = ''.'' @ s"
    if "h = ''*.'' @ s"
    using that by simp
  show "entry_matches (''*.'' @ s @ ''='' @ ip) h \<longleftrightarrow>
        length (''.'' @ s) \<le> length h \<and> drop (length h - length (''.'' @ s)) h = ''.'' @ s"
    using eq exact by (auto simp: entry_matches_def pattern_matches_def)
qed

text \<open>
  Claim C1. For an entry with the wildcard pattern \<^verbatim>\<open>*.s\<close> and any host name \<open>h\<close>, the loop
  leaves at that entry if and only if \<open>h\<close> is at least as long as \<^verbatim>\<open>.s\<close> and the last bytes of
  \<open>h\<close> are \<^verbatim>\<open>.s\<close>, byte for byte. So when no earlier token matches \<open>h\<close>, the lookup reports
  what the parser makes of the entry's address literal in that case, and goes on with the
  later tokens otherwise. A pattern cannot hold \<^verbatim>\<open>=\<close>, since the token is cut at its first
  \<^verbatim>\<open>=\<close>. (The working copy is allocated.)
\<close>

theorem wildcard_matches_iff_suffix:
  assumes "getenv environ ''CURSOR_DNS_OVERRIDES'' = Some cfg"
    and "tokens cfg = before @ (''*.'' @ s @ ''='' @ ip) # after"
    and "\<forall>t \<in> set before. \<not> entry_matches t h"
    and "CHR ''='' \<notin> set s"
  shows "(entry_matches (''*.'' @ s @ ''='' @ ip) h \<longleftrightarrow>
            length (''.'' @ s) \<le> length h \<and> drop (length h - length (''.'' @ s)) h = ''.'' @ s)
         \<and> lookup_override pton True environ (Some h) =
            (if length (''.'' @ s) \<le> length h \<and> drop (length h - length (''.'' @ s)) h = ''.'' @ s
             then pton ip else first_match pton h after)"
proof -
  let ?tok = "''*.'' @ s @ ''='' @ ip"
  have m: "entry_matches ?tok h \<longleftrightarrow>
           length (''.'' @ s) \<le> length h \<and> drop (length h - length (''.'' @ s)) h = ''.'' @ s"
    by (rule wildcard_entry(2) [OF assms(4)])
  have eq: "strchr ?tok (CHR ''='') = Some (length (''*.'' @ s))"
    by (rule wildcard_entry(1) [OF assms(4)])
  have "lookup_override pton True environ (Some h) = first_match pton h (before @ ?tok # after)"
    using assms(1,2) by (simp add: lookup_override_first_match)
  also have "\<dots> = first_match pton h (?tok # after)"
    using assms(3) by (rule first_match_skip)
  also have "\<dots> = (if entry_matches ?tok h then pton ip else first_match pton h after)"
    using eq by (simp add: first_match_Cons del: first_match.simps(2))
  finally show ?thesis using m by simp
qed

text \<open>
  \<^verbatim>\<open>example.com\<close> is not matched by \<^verbatim>\<open>*.example.com\<close>, \<^verbatim>\<open>foo.example.com\<close> is.
\<close>

theorem wildcard_matches_iff_suffix_witness:
  "\<not> entry_matches ''*.example.com=127.0.0.1'' ''example.com''
   \<and> lookup_override inet_pton True [''CURSOR_DNS_OVERRIDES'' \<mapsto> ''b=10.0.0.1,*.example.com=127.0.0.1'']
        (Some ''example.com'') = None
   \<and> entry_matches ''*.example.com=127.0.0.1'' ''foo.example.com''
   \<and> lookup_override inet_pton True [''CURSOR_DNS_OVERRIDES'' \<mapsto> ''b=10.0.0.1,*.example.com=127.0.0.1'']
        (Some ''foo.example.com'') = Some (127, 0, 0, 1)"
proof -
  have ip: "inet_pton ''127.0.0.1'' = Some (127, 0, 0, 1)" by code_simp
  have e: "getenv [''CURSOR_DNS_OVERRIDES'' \<mapsto> ''b=10.0.0.1,*.example.com=127.0.0.1''] ''CURSOR_DNS_OVERRIDES''
           = Some ''b=10.0.0.1,*.example.com=127.0.0.1''"
    by (simp add: getenv_def)
  have tk: "tokens ''b=10.0.0.1,*.example.com=127.0.0.1''
            = [''b=10.0.0.1''] @ (''*.'' @ ''example.com'' @ ''='' @ ''127.0.0.1'') # []"
    by code_simp
  have b1: "\<forall>t \<in> set [''b=10.0.0.1'']. \<not> entry_matches t ''example.com''"
    by (simp add: entry_matches_def pattern_matches_def)
  have b2: "\<forall>t \<in> set [''b=10.0.0.1'']. \<not> entry_matches t ''foo.example.com''"
    by (simp add: entry_matches_def pattern_matches_def)
  have s: "CHR ''='' \<notin> set ''example.com''" by simp
  show ?thesis
    using wildcard_matches_iff_suffix [OF e tk b1 s, of inet_pton]
      wildcard_matches_iff_suffix [OF e tk b2 s, of inet_pton] ip
    by simp
qed

subsection \<open>Absent and malformed input\<close>



subsection \<open>Address literals\<close>

lemma digit_char_digit:
  assumes "d < 10"
  shows "isdigit (digit_char d)" and "(of_char (digit_char d) :: nat) - 48 = d"
    and "digit_char d \<noteq> CHR ''.''"
proof -
  have v: "(of_char (digit_char d) :: nat) = 48 + d"
    using assms by (simp add: digit_char_def)
  show "isdigit (digit_char d)" using v assms by (simp add: isdigit_def)
  show "(of_char (digit_char d) :: nat) - 48 = d" using v by simp
  show "digit_char d \<noteq> CHR ''.''"
  proof
    assume "digit_char d = CHR ''.''"
    then have "(of_char (digit_char d) :: nat) = of_char (CHR ''.'')" by simp
    then show False using v by simp
  qed
qed

lemma inet_pton4_digit:
  assumes "d < 10" and "unat cur * 10 + d \<le> 255" and "\<not> (saw \<and> cur = 0)" and "length done \<le> 3"
  shows "inet_pton4 (digit_char d # src) saw done cur =
         inet_pton4 src True done (of_nat (unat cur * 10 + d))"
  using assms digit_char_digit [OF assms(1)] by (auto simp: Let_def)

lemma inet_pton4_dot:
  assumes "length done < 3"
  shows "inet_pton4 (CHR ''.'' # src) True done cur = inet_pton4 src False (done @ [cur]) 0"
  using assms by (simp add: isdigit_def)

lemma unat_u8_of_nat: "n \<le> 255 \<Longrightarrow> unat (of_nat n :: 8 word) = n"
  by (simp add: unat_of_nat)

lemma hundreds_digit:
  fixes n :: nat
  assumes "n \<le> 255" and "100 \<le> n"
  shows "n div 100 < 10" and "n div 100 \<noteq> 0" and "n div 100 \<le> 255"
  using assms by linarith+

lemma tens_small:
  fixes n :: nat
  assumes "\<not> 100 \<le> n"
  shows "n div 10 < 10"
  using assms by linarith

lemma hundreds_tens: "(n :: nat) div 100 * 10 + n div 10 mod 10 = n div 10"
proof -
  have "n div 100 = n div 10 div 10" by (simp add: div_mult2_eq)
  then show ?thesis by simp
qed

lemma word8_nonzero:
  assumes "n \<le> 255" and "n \<noteq> 0"
  shows "(of_nat n :: 8 word) \<noteq> 0"
proof
  assume "(of_nat n :: 8 word) = 0"
  then have "unat (of_nat n :: 8 word) = 0" by simp
  then show False using assms by (simp add: unat_u8_of_nat)
qed

lemma inet_pton4_first_digit:
  assumes "d < 10" and "length done \<le> 3"
  shows "inet_pton4 (digit_char d # src) False done 0 = inet_pton4 src True done (of_nat d)"
  using inet_pton4_digit [of d 0 False "done" src] assms by simp

lemma inet_pton4_next_digit:
  assumes "d < 10" and "m \<le> 255" and "m \<noteq> 0" and "m * 10 + d \<le> 255" and "length done \<le> 3"
  shows "inet_pton4 (digit_char d # src) True done (of_nat m) =
         inet_pton4 src True done (of_nat (m * 10 + d))"
  using inet_pton4_digit [of d "of_nat m" True "done" src] assms word8_nonzero [of m]
  by (simp add: unat_u8_of_nat)

lemma inet_pton4_decimal:
  assumes "length done \<le> 3"
  shows "inet_pton4 (decimal_u8 w @ src) False done 0 = inet_pton4 src True done w"
proof -
  define n where "n = unat w"
  have n: "n \<le> 255" using unsigned_less [of w, where 'a = nat] by (simp add: n_def)
  have w: "of_nat n = w" by (simp add: n_def)
  have c: "n mod 10 < 10" by simp
  show ?thesis
  proof (cases "100 \<le> n")
    case True
    have "inet_pton4 (decimal_u8 w @ src) False done 0
          = inet_pton4 (digit_char (n div 100) # digit_char (n div 10 mod 10) # digit_char (n mod 10) # src)
              False done 0"
    proof -
      have "decimal_u8 w = [digit_char (n div 100), digit_char (n div 10 mod 10), digit_char (n mod 10)]"
        using True by (simp add: decimal_u8_def n_def Let_def)
      then show ?thesis by (simp only: append.simps)
    qed
    also have "\<dots> = inet_pton4 (digit_char (n div 10 mod 10) # digit_char (n mod 10) # src)
              True done (of_nat (n div 100))"
      using hundreds_digit(1) [OF n True] assms by (rule inet_pton4_first_digit)
    also have "\<dots> = inet_pton4 (digit_char (n mod 10) # src)
              True done (of_nat (n div 100 * 10 + n div 10 mod 10))"
    proof (rule inet_pton4_next_digit)
      show "n div 10 mod 10 < 10" by simp
      show "n div 100 \<le> 255" by (rule hundreds_digit(3) [OF n True])
      show "n div 100 \<noteq> 0" by (rule hundreds_digit(2) [OF n True])
      show "n div 100 * 10 + n div 10 mod 10 \<le> 255"
        using n by (simp only: hundreds_tens)
      show "length done \<le> 3" by (rule assms)
    qed
    also have "\<dots> = inet_pton4 (digit_char (n mod 10) # src) True done (of_nat (n div 10))"
      by (simp only: hundreds_tens)
    also have "\<dots> = inet_pton4 src True done (of_nat (n div 10 * 10 + n mod 10))"
    proof (rule inet_pton4_next_digit)
      show "n mod 10 < 10" by simp
      show "n div 10 \<le> 255" using n by linarith
      show "n div 10 \<noteq> 0" using True by linarith
      show "n div 10 * 10 + n mod 10 \<le> 255" using n by simp
      show "length done \<le> 3" by (rule assms)
    qed
    also have "\<dots> = inet_pton4 src True done w" using w by simp
    finally show ?thesis .
  next
    case False
    show ?thesis
    proof (cases "10 \<le> n")
      case True
      have "inet_pton4 (decimal_u8 w @ src) False done 0
            = inet_pton4 (digit_char (n div 10) # digit_char (n mod 10) # src) False done 0"
      proof -
        have "decimal_u8 w = [digit_char (n div 10), digit_char (n mod 10)]"
          using True False by (simp add: decimal_u8_def n_def Let_def)
        then show ?thesis by (simp only: append.simps)
      qed
      also have "\<dots> = inet_pton4 (digit_char (n mod 10) # src) True done (of_nat (n div 10))"
        using tens_small [OF False] assms by (rule inet_pton4_first_digit)
      also have "\<dots> = inet_pton4 src True done (of_nat (n div 10 * 10 + n mod 10))"
      proof (rule inet_pton4_next_digit)
        show "n mod 10 < 10" by simp
        show "n div 10 \<le> 255" using n by linarith
        show "n div 10 \<noteq> 0" using True by linarith
        show "n div 10 * 10 + n mod 10 \<le> 255" using n by simp
        show "length done \<le> 3" by (rule assms)
      qed
      also have "\<dots> = inet_pton4 src True done w" using w by simp
      finally show ?thesis .
    next
      case F2: False
      have "inet_pton4 (decimal_u8 w @ src) False done 0
            = inet_pton4 (digit_char n # src) False done 0"
      proof -
        have "decimal_u8 w = [digit_char n]"
          using F2 False by (simp add: decimal_u8_def n_def Let_def)
        then show ?thesis by (simp only: append.simps)
      qed
      also have "\<dots> = inet_pton4 src True done (of_nat n)"
        using F2 assms by (intro inet_pton4_first_digit) simp_all
      finally show ?thesis using w by simp
    qed
  qed
qed

lemma inet_pton4_field:
  assumes "length done < 3"
  shows "inet_pton4 (decimal_u8 w @ CHR ''.'' # src) False done 0 = inet_pton4 src False (done @ [w]) 0"
proof -
  have "inet_pton4 (decimal_u8 w @ CHR ''.'' # src) False done 0
        = inet_pton4 (CHR ''.'' # src) True done w"
    using assms by (intro inet_pton4_decimal) simp
  also have "\<dots> = inet_pton4 src False (done @ [w]) 0"
    using assms by (rule inet_pton4_dot)
  finally show ?thesis .
qed

lemma inet_pton_inet_ntop: "inet_pton (inet_ntop a) = Some a"
proof -
  obtain b1 b2 b3 b4 where a: "a = (b1, b2, b3, b4)" by (cases a) auto
  have "inet_pton (inet_ntop a)
        = inet_pton4 (decimal_u8 b1 @ CHR ''.'' # decimal_u8 b2 @ CHR ''.'' # decimal_u8 b3 @
                      CHR ''.'' # decimal_u8 b4 @ []) False [] 0"
    by (simp add: a inet_pton_def)
  also have "\<dots> = inet_pton4 (decimal_u8 b2 @ CHR ''.'' # decimal_u8 b3 @
                      CHR ''.'' # decimal_u8 b4 @ []) False ([] @ [b1]) 0"
    by (rule inet_pton4_field) simp
  also have "\<dots> = inet_pton4 (decimal_u8 b3 @ CHR ''.'' # decimal_u8 b4 @ []) False (([] @ [b1]) @ [b2]) 0"
    by (rule inet_pton4_field) simp
  also have "\<dots> = inet_pton4 (decimal_u8 b4 @ []) False ((([] @ [b1]) @ [b2]) @ [b3]) 0"
    by (rule inet_pton4_field) simp
  also have "\<dots> = inet_pton4 [] True ((([] @ [b1]) @ [b2]) @ [b3]) b4"
    by (rule inet_pton4_decimal) simp
  also have "\<dots> = Some a"
    by (simp add: a)
  finally show ?thesis .
qed

lemma length_decimal_u8: "length (decimal_u8 w) \<le> 3"
  by (simp add: decimal_u8_def Let_def)

lemma inet_ntop_fits: "length (inet_ntop a) < 16"
proof -
  obtain b1 b2 b3 b4 where a: "a = (b1, b2, b3, b4)" by (cases a) auto
  show ?thesis
    using length_decimal_u8 [of b1] length_decimal_u8 [of b2] length_decimal_u8 [of b3]
      length_decimal_u8 [of b4]
    by (simp add: a)
qed

subsection \<open>The request handed to the next resolver\<close>

lemma getaddrinfo_override:
  assumes "lookup_override pton mem environ (Some n) = Some a"
  shows "getaddrinfo pton mem environ dlsym_next real_getaddrinfo (Some n) service hints =
         (let r = (case real_getaddrinfo of None \<Rightarrow> dlsym_next | Some f \<Rightarrow> Some f) in
          (r, call_real r (Some (inet_ntop a)) service
                (Some \<lparr>ai_flags = AI_NUMERICHOST, ai_family = AF_INET,
                       ai_socktype = (case hints of Some h \<Rightarrow> ai_socktype h | None \<Rightarrow> SOCK_STREAM),
                       ai_protocol = (case hints of Some h \<Rightarrow> ai_protocol h | None \<Rightarrow> 0),
                       ai_addrlen = 0, ai_addr = 0, ai_canonname = 0, ai_next = 0\<rparr>)))"
  using assms by (simp add: getaddrinfo_def Let_def addrinfo_zero_def)

lemma getaddrinfo_fallback:
  assumes "node = None \<or> lookup_override pton mem environ node = None"
  shows "getaddrinfo pton mem environ dlsym_next real_getaddrinfo node service hints =
         (let r = (case real_getaddrinfo of None \<Rightarrow> dlsym_next | Some f \<Rightarrow> Some f) in
          (r, call_real r node service
                (Some ((case hints of Some h \<Rightarrow> h | None \<Rightarrow> addrinfo_zero)\<lparr>ai_family := AF_INET\<rparr>))))"
proof (cases node)
  case None
  then show ?thesis by (simp add: getaddrinfo_def Let_def)
next
  case (Some n)
  then have "lookup_override pton mem environ node = None" using assms by simp
  then show ?thesis using Some by (simp add: getaddrinfo_def Let_def)
qed

text \<open>
  Claim C4. When the host name is present and the lookup gives the address \<open>a\<close>, the next
  resolver is called on the numeric literal of \<open>a\<close> as host, the service of the caller, and
  hints whose flags are \<^verbatim>\<open>AI_NUMERICHOST\<close>, whose family is \<^verbatim>\<open>AF_INET\<close>, whose socket type
  and protocol are those of the caller's hints (\<^verbatim>\<open>SOCK_STREAM\<close> and 0 without hints) and whose
  other fields are zero; what the resolver hands back is returned unchanged. The resolver is
  the static variable if it is set, the result of \<^verbatim>\<open>dlsym\<close> otherwise. By
  \<open>inet_pton_inet_ntop\<close> the literal reads back as \<open>a\<close>.
\<close>

theorem override_request:
  assumes "lookup_override pton mem environ (Some n) = Some a"
    and "(case real_getaddrinfo of None \<Rightarrow> dlsym_next | Some f \<Rightarrow> Some f) = Some real"
  shows "getaddrinfo pton mem environ dlsym_next real_getaddrinfo (Some n) service hints =
         (Some real,
          Inr (real (Some (inet_ntop a)) service
                 (Some \<lparr>ai_flags = AI_NUMERICHOST, ai_family = AF_INET,
                        ai_socktype = (case hints of Some h \<Rightarrow> ai_socktype h | None \<Rightarrow> SOCK_STREAM),
                        ai_protocol = (case hints of Some h \<Rightarrow> ai_protocol h | None \<Rightarrow> 0),
                        ai_addrlen = 0, ai_addr = 0, ai_canonname = 0, ai_next = 0\<rparr>)))"
  using assms(2) by (simp add: getaddrinfo_override [OF assms(1)] call_real_def Let_def)

text \<open>
  The configuration \<^verbatim>\<open>foo.test=203.0.113.9\<close>, the host \<^verbatim>\<open>foo.test\<close>, no hints, and a resolver
  that hands back the request it was given.
\<close>

theorem override_request_witness:
  "getaddrinfo inet_pton True [''CURSOR_DNS_OVERRIDES'' \<mapsto> ''foo.test=203.0.113.9'']
     (Some (\<lambda>node service hints. (node, service, hints))) None
     (Some ''foo.test'') (Some ''443'') None
   = (Some (\<lambda>node service hints. (node, service, hints)),
      Inr (Some ''203.0.113.9'', Some ''443'',
           Some \<lparr>ai_flags = 4, ai_family = 2, ai_socktype = 1, ai_protocol = 0,
                  ai_addrlen = 0, ai_addr = 0, ai_canonname = 0, ai_next = 0\<rparr>))"
proof -
  have l: "lookup_override inet_pton True [''CURSOR_DNS_OVERRIDES'' \<mapsto> ''foo.test=203.0.113.9'']
             (Some ''foo.test'') = Some (203, 0, 113, 9)"
    by code_simp
  have b: "(case None of None \<Rightarrow> Some (\<lambda>node service hints. (node, service, hints)) | Some f \<Rightarrow> Some f)
           = Some (\<lambda>(node :: string option) (service :: string option) (hints :: addrinfo option).
                     (node, service, hints))"
    by simp
  have s: "inet_ntop (203, 0, 113, 9) = ''203.0.113.9''"
    by code_simp
  show ?thesis
    using override_request [OF l b, of "Some ''443''" None] s
    by (simp add: AI_NUMERICHOST_def AF_INET_def SOCK_STREAM_def)
qed

text \<open>
  Claim C5. When the host name is absent or the lookup gives no override, the next resolver
  is called on the caller's host and service and on a copy of the caller's hints (all zero
  without hints) in which only the family is overwritten, by \<^verbatim>\<open>AF_INET\<close>; what the resolver
  hands back is returned unchanged.
\<close>

theorem fallback_request:
  assumes "node = None \<or> lookup_override pton mem environ node = None"
    and "(case real_getaddrinfo of None \<Rightarrow> dlsym_next | Some f \<Rightarrow> Some f) = Some real"
  shows "getaddrinfo pton mem environ dlsym_next real_getaddrinfo node service hints =
         (Some real,
          Inr (real node service
                 (Some ((case hints of Some h \<Rightarrow> h | None \<Rightarrow> addrinfo_zero)\<lparr>ai_family := AF_INET\<rparr>))))"
  using assms(2) by (simp add: getaddrinfo_fallback [OF assms(1)] call_real_def Let_def)

text \<open>
  A host that no entry matches, asked for with the family \<^verbatim>\<open>AF_INET6\<close>; and an absent host
  without hints and without configuration.
\<close>

theorem fallback_request_witness:
  "getaddrinfo inet_pton True [''CURSOR_DNS_OVERRIDES'' \<mapsto> ''other.test=10.0.0.1'']
     None (Some (\<lambda>node service hints. (node, service, hints)))
     (Some ''example.org'') None
     (Some \<lparr>ai_flags = AI_CANONNAME, ai_family = AF_INET6, ai_socktype = SOCK_DGRAM, ai_protocol = 17,
            ai_addrlen = 0, ai_addr = 0, ai_canonname = 0, ai_next = 0\<rparr>)
   = (Some (\<lambda>node service hints. (node, service, hints)),
      Inr (Some ''example.org'', None,
           Some \<lparr>ai_flags = AI_CANONNAME, ai_family = AF_INET, ai_socktype = SOCK_DGRAM, ai_protocol = 17,
                  ai_addrlen = 0, ai_addr = 0, ai_canonname = 0, ai_next = 0\<rparr>))
   \<and> getaddrinfo inet_pton True Map.empty
     None (Some (\<lambda>node service hints. (node, service, hints))) None (Some ''80'') None
   = (Some (\<lambda>node service hints. (node, service, hints)),
      Inr (None, Some ''80'',
           Some \<lparr>ai_flags = 0, ai_family = AF_INET, ai_socktype = 0, ai_protocol = 0,
                  ai_addrlen = 0, ai_addr = 0, ai_canonname = 0, ai_next = 0\<rparr>))"
proof -
  let ?real = "\<lambda>(node :: string option) (service :: string option) (hints :: addrinfo option).
                 (node, service, hints)"
  have l: "Some ''example.org'' = None \<or>
           lookup_override inet_pton True [''CURSOR_DNS_OVERRIDES'' \<mapsto> ''other.test=10.0.0.1'']
             (Some ''example.org'') = None"
    by code_simp
  have l2: "(None :: string option) = None \<or> lookup_override inet_pton True Map.empty None = None"
    by simp
  have b: "(case Some ?real of None \<Rightarrow> None | Some f \<Rightarrow> Some f) = Some ?real"
    by simp
  show ?thesis
    using fallback_request [OF l b, of None]
      fallback_request [OF l2 b, of "Some ''80''" None]
    by (simp add: addrinfo_zero_def)
qed

text \<open>
  Claim C9. On the override path the flags of the caller's hints are dropped: whatever
  value \<open>flags\<close> they hold, the hints handed to the next resolver are the same, with
  \<^verbatim>\<open>AI_NUMERICHOST\<close> as their only flag.
\<close>

theorem override_discards_flags:
  assumes "lookup_override pton mem environ (Some n) = Some a"
    and "(case real_getaddrinfo of None \<Rightarrow> dlsym_next | Some f \<Rightarrow> Some f) = Some real"
  shows "getaddrinfo pton mem environ dlsym_next real_getaddrinfo (Some n) service
           (Some (h\<lparr>ai_flags := flags\<rparr>)) =
         (Some real,
          Inr (real (Some (inet_ntop a)) service
                 (Some (addrinfo_zero\<lparr>ai_flags := AI_NUMERICHOST, ai_family := AF_INET,
                                       ai_socktype := ai_socktype h, ai_protocol := ai_protocol h\<rparr>))))"
  using assms(2) by (simp add: getaddrinfo_override [OF assms(1)] call_real_def addrinfo_zero_def Let_def)

text \<open>
  The caller asks with \<^verbatim>\<open>AI_CANONNAME | AI_PASSIVE\<close>; the resolver, which hands back the
  flags it was given, sees \<^verbatim>\<open>AI_NUMERICHOST\<close>.
\<close>

theorem override_discards_flags_witness:
  "getaddrinfo inet_pton True [''CURSOR_DNS_OVERRIDES'' \<mapsto> ''*.blocked.test=127.0.0.1'']
     (Some (\<lambda>node service hints. map_option ai_flags hints)) None
     (Some ''x.y.blocked.test'') None
     (Some (addrinfo_zero\<lparr>ai_flags := AI_CANONNAME + AI_PASSIVE\<rparr>))
   = (Some (\<lambda>node service hints. map_option ai_flags hints), Inr (Some AI_NUMERICHOST))"
proof -
  let ?real = "\<lambda>(node :: string option) (service :: string option) (hints :: addrinfo option).
                 map_option ai_flags hints"
  have l: "lookup_override inet_pton True [''CURSOR_DNS_OVERRIDES'' \<mapsto> ''*.blocked.test=127.0.0.1'']
             (Some ''x.y.blocked.test'') = Some (127, 0, 0, 1)"
    by code_simp
  have b: "(case None of None \<Rightarrow> Some ?real | Some f \<Rightarrow> Some f) = Some ?real"
    by simp
  show ?thesis
    using override_discards_flags
            [OF l b, where service = None and h = addrinfo_zero and flags = "AI_CANONNAME + AI_PASSIVE"]
    by simp
qed

text \<open>
  Claim C10. When \<^verbatim>\<open>strdup\<close> cannot allocate the working copy, the lookup gives no override
  and \<^verbatim>\<open>getaddrinfo\<close> takes the path that only forces the family: the next resolver is
  called on the caller's host, service and hints with the family set to \<^verbatim>\<open>AF_INET\<close>.
\<close>

theorem strdup_failure_falls_through:
  "lookup_override pton False environ node = None
   \<and> getaddrinfo pton False environ dlsym_next real_getaddrinfo node service hints =
       (let r = (case real_getaddrinfo of None \<Rightarrow> dlsym_next | Some f \<Rightarrow> Some f) in
        (r, call_real r node service
              (Some ((case hints of Some h \<Rightarrow> h | None \<Rightarrow> addrinfo_zero)\<lparr>ai_family := AF_INET\<rparr>))))"
  using getaddrinfo_fallback [of node pton False environ] by (simp add: lookup_override_no_mem)

text \<open>The entry \<^verbatim>\<open>a=1.1.1.1\<close> overrides \<^verbatim>\<open>a\<close> when the copy is allocated, and not otherwise.\<close>

theorem strdup_failure_falls_through_witness:
  "lookup_override inet_pton True [''CURSOR_DNS_OVERRIDES'' \<mapsto> ''a=1.1.1.1''] (Some ''a'') = Some (1, 1, 1, 1)
   \<and> lookup_override inet_pton False [''CURSOR_DNS_OVERRIDES'' \<mapsto> ''a=1.1.1.1''] (Some ''a'') = None
   \<and> getaddrinfo inet_pton False [''CURSOR_DNS_OVERRIDES'' \<mapsto> ''a=1.1.1.1'']
        None (Some (\<lambda>node service hints. (node, service, hints))) (Some ''a'') None None
      = (Some (\<lambda>node service hints. (node, service, hints)),
         Inr (Some ''a'', None, Some (addrinfo_zero\<lparr>ai_family := AF_INET\<rparr>)))"
proof -
  have 1: "lookup_override inet_pton True [''CURSOR_DNS_OVERRIDES'' \<mapsto> ''a=1.1.1.1''] (Some ''a'')
           = Some (1, 1, 1, 1)"
    by code_simp
  show ?thesis
    using 1 strdup_failure_falls_through
              [of inet_pton "[''CURSOR_DNS_OVERRIDES'' \<mapsto> ''a=1.1.1.1'']" "Some ''a''" None
                  "Some (\<lambda>node service hints. (node, service, hints))" None None]
    by (simp add: call_real_def)
qed

subsection \<open>What the lookup depends on\<close>




end
